theory Spec2Isabelle
  imports Main "HOL-Library.Sublist"
begin

section \<open>Flake references of nixos-rebuild-ng (\<^verbatim>\<open>nixos_rebuild/models.py\<close>)\<close>

text \<open>
  The development embeds the reference-resolution part of \<^verbatim>\<open>models.py\<close>:
  \<^verbatim>\<open>discover_git\<close>, \<^verbatim>\<open>discover_closest_flake\<close>, \<^verbatim>\<open>get_hostname\<close> and
  \<^verbatim>\<open>Flake.parse\<close> with \<^verbatim>\<open>Flake.__str__\<close>. Python strings are \<open>string\<close>; an
  exception is a value \<open>Inl e\<close> of a sum type; the file system, the remote command
  runner and \<^verbatim>\<open>platform.node()\<close> are fields of a record that every function takes
  as its first argument.
\<close>

subsection \<open>Exceptions\<close>

datatype error =
    AssertionError
  | AttributeError
  | CalledProcessError
  | IndexError
  | ValueError
  | OSError
  | RuntimeError
  | OtherError string

subsection \<open>String operations of Python used by the module\<close>

text \<open>
  \<^verbatim>\<open>str.isspace\<close> on the code points that a \<open>char\<close> can hold (0 to 255): tab to
  carriage return, the four separators \<^verbatim>\<open>0x1C\<close> to \<^verbatim>\<open>0x1F\<close>, the space, the next-line
  character \<^verbatim>\<open>0x85\<close> and the no-break space \<^verbatim>\<open>0xA0\<close>. These are the characters that
  \<^verbatim>\<open>str.strip()\<close> removes from both ends.
\<close>

definition is_space :: "char \<Rightarrow> bool" where
  "is_space c \<longleftrightarrow> c \<in> {CHR 0x09, CHR 0x0A, CHR 0x0B, CHR 0x0C, CHR 0x0D,
                          CHR 0x1C, CHR 0x1D, CHR 0x1E, CHR 0x1F, CHR '' '',
                          CHR 0x85, CHR 0xA0}"

definition strip :: "string \<Rightarrow> string" where
  "strip s = rev (dropWhile is_space (rev (dropWhile is_space s)))"

definition startswith :: "string \<Rightarrow> string \<Rightarrow> bool" where
  "startswith s p \<longleftrightarrow> prefix p s"

text \<open>
  \<^verbatim>\<open>s.split(sep)\<close>: the pieces between the non-overlapping occurrences of \<open>sep\<close>, found
  from the left. \<open>cur\<close> is the piece read so far. Python raises on an empty separator;
  both calls of the module pass a constant, non-empty one.
\<close>

function str_split_aux :: "string \<Rightarrow> string \<Rightarrow> string \<Rightarrow> string list" where
  "str_split_aux sep cur [] = [cur]"
| "str_split_aux sep cur (c # cs) =
     (if sep \<noteq> [] \<and> prefix sep (c # cs)
      then cur # str_split_aux sep [] (drop (length sep) (c # cs))
      else str_split_aux sep (cur @ [c]) cs)"
  by pat_completeness auto
termination
  by (relation "measure (\<lambda>(sep, cur, s). length s)") auto

definition str_split :: "string \<Rightarrow> string \<Rightarrow> string list" where
  "str_split sep s = str_split_aux sep [] s"

fun str_join :: "string \<Rightarrow> string list \<Rightarrow> string" where
  "str_join sep [] = []"
| "str_join sep [x] = x"
| "str_join sep (x # y # ys) = x @ sep @ str_join sep (y # ys)"

subsection \<open>The regular expression \<^verbatim>\<open>Flake._re\<close>\<close>

text \<open>
  \<^verbatim>\<open>_re = re.compile(r"^(?P<path>[^\#]*)\#?(?P<attr>[^\#\"]*)$")\<close>.
  The pattern is a sequence of greedy items followed by \<^verbatim>\<open>$\<close>: a starred character
  class (each one is a capturing group here) or an optional character. \<open>re_seq\<close> is
  the backtracking matcher of Python's \<^verbatim>\<open>re\<close> for such sequences: a star tries the
  longest run first and gives characters back one at a time, an optional character is
  tried present before absent, and \<^verbatim>\<open>$\<close> matches at the end of the string or before
  a newline that ends it. The result is the list of captured groups of the first match.
\<close>

datatype re_item = Star "char \<Rightarrow> bool" | Opt char

fun first_some :: "'a option list \<Rightarrow> 'a option" where
  "first_some [] = None"
| "first_some (None # rs) = first_some rs"
| "first_some (Some r # rs) = Some r"

fun re_seq :: "re_item list \<Rightarrow> string \<Rightarrow> string list option" where
  "re_seq [] s = (if s = [] \<or> s = [CHR 0x0A] then Some [] else None)"
| "re_seq (Star P # items) s =
     first_some (map (\<lambda>k. map_option (Cons (take k s)) (re_seq items (drop k s)))
                     (rev [0..<Suc (length (takeWhile P s))]))"
| "re_seq (Opt c # items) s =
     first_some [case s of [] \<Rightarrow> None | x # xs \<Rightarrow> if x = c then re_seq items xs else None,
                 re_seq items s]"

definition not_hash :: "char \<Rightarrow> bool" where
  "not_hash c \<longleftrightarrow> c \<noteq> CHR ''#''"

definition not_hash_quote :: "char \<Rightarrow> bool" where
  "not_hash_quote c \<longleftrightarrow> c \<noteq> CHR ''#'' \<and> c \<noteq> CHR 0x22"

definition Flake_re :: "re_item list" where
  "Flake_re = [Star not_hash, Opt CHR ''#'', Star not_hash_quote]"

text \<open>\<^verbatim>\<open>cls._re.match(flake_str)\<close>, as the groups \<^verbatim>\<open>(path, attr)\<close>, or \<open>None\<close>.\<close>

definition re_match :: "string \<Rightarrow> (string \<times> string) option" where
  "re_match flake_str =
     (case re_seq Flake_re flake_str of
        Some [p, a] \<Rightarrow> Some (p, a)
      | _ \<Rightarrow> None)"

subsection \<open>\<^verbatim>\<open>pathlib.Path\<close> on POSIX\<close>

text \<open>
  A path is its root (\<^verbatim>\<open>""\<close>, \<^verbatim>\<open>"/"\<close> or \<^verbatim>\<open>"//"\<close>) and the list of its components
  below the root, as \<^verbatim>\<open>pathlib\<close> stores them. \<open>Path_of\<close> is the constructor
  \<^verbatim>\<open>Path(s)\<close>: it drops empty components and \<^verbatim>\<open>"."\<close>.
\<close>

datatype Path = Path (root: string) (tail: "string list")

definition splitroot :: "string \<Rightarrow> string \<times> string" where
  "splitroot p =
     (if take 1 p \<noteq> ''/'' then ([], p)
      else if take 1 (drop 1 p) \<noteq> ''/'' \<or> take 1 (drop 2 p) = ''/'' then (''/'', drop 1 p)
      else (take 2 p, drop 2 p))"

definition Path_of :: "string \<Rightarrow> Path" where
  "Path_of s =
     (if s = [] then Path [] []
      else (case splitroot s of
              (r, rel) \<Rightarrow> Path r (filter (\<lambda>x. x \<noteq> [] \<and> x \<noteq> ''.'') (str_split ''/'' rel))))"

text \<open>\<^verbatim>\<open>str(p)\<close>.\<close>

definition path_str :: "Path \<Rightarrow> string" where
  "path_str p =
     (let s = root p @ str_join ''/'' (tail p) in if s = [] then ''.'' else s)"

text \<open>\<^verbatim>\<open>p == q\<close>: paths of one flavour are equal when their strings are.\<close>

definition path_eq :: "Path \<Rightarrow> Path \<Rightarrow> bool" where
  "path_eq p q \<longleftrightarrow> path_str p = path_str q"

text \<open>\<^verbatim>\<open>p / key\<close>: a rooted \<open>key\<close> replaces \<open>p\<close>, any other is appended.\<close>

definition joinpath :: "Path \<Rightarrow> string \<Rightarrow> Path" where
  "joinpath p key =
     (let k = Path_of key
      in if root k \<noteq> [] then k else Path (root p) (tail p @ tail k))"

text \<open>\<^verbatim>\<open>p.parent\<close>: a path with no component is its own parent.\<close>

definition parent :: "Path \<Rightarrow> Path" where
  "parent p = (if tail p = [] then p else Path (root p) (butlast (tail p)))"

text \<open>\<^verbatim>\<open>p.parents\<close>, nearest first.\<close>

definition parents :: "Path \<Rightarrow> Path list" where
  "parents p = map (\<lambda>k. Path (root p) (take k (tail p))) (rev [0..<length (tail p)])"

text \<open>\<^verbatim>\<open>p.is_relative_to(other)\<close>: \<^verbatim>\<open>other == p or other in p.parents\<close>.\<close>

definition is_relative_to :: "Path \<Rightarrow> Path \<Rightarrow> bool" where
  "is_relative_to p other \<longleftrightarrow> path_eq other p \<or> list_ex (path_eq other) (parents p)"

text \<open>\<^verbatim>\<open>p.relative_to(other)\<close>, which raises \<^verbatim>\<open>ValueError\<close> outside \<open>other\<close>.\<close>

definition relative_to :: "Path \<Rightarrow> Path \<Rightarrow> error + Path" where
  "relative_to p other =
     (if is_relative_to p other then Inr (Path [] (drop (length (tail other)) (tail p)))
      else Inl ValueError)"

subsection \<open>The environment\<close>

text \<open>
  What the module reads from outside: the file system (through \<^verbatim>\<open>os.path.realpath\<close>,
  which \<^verbatim>\<open>Path.resolve\<close> calls and which may raise, the type tests and the text of a
  file, which may raise too), the outcome of
  \<^verbatim>\<open>run_wrapper(["uname", "-n"], capture_output=True, remote=h).stdout\<close> with
  \<^verbatim>\<open>run_wrapper\<close> of \<^verbatim>\<open>process.py\<close> (the captured standard output, or the exception
  raised on the way to it) and \<^verbatim>\<open>platform.node()\<close>. \<open>'r\<close> is the class \<^verbatim>\<open>Remote\<close> of
  \<^verbatim>\<open>process.py\<close>. The environment is one snapshot: it does not change during a call.
\<close>

record 'r world =
  realpath :: "string \<Rightarrow> error + string"
  isdir :: "string \<Rightarrow> bool"
  isfile :: "string \<Rightarrow> bool"
  read_text :: "string \<Rightarrow> error + string"
  run_wrapper :: "'r \<Rightarrow> error + string"
  platform_node :: string

definition resolve :: "'r world \<Rightarrow> Path \<Rightarrow> error + Path" where
  "resolve w p =
     (case realpath w (path_str p) of Inl e \<Rightarrow> Inl e | Inr s \<Rightarrow> Inr (Path_of s))"

definition is_dir :: "'r world \<Rightarrow> Path \<Rightarrow> bool" where
  "is_dir w p \<longleftrightarrow> isdir w (path_str p)"

definition is_file :: "'r world \<Rightarrow> Path \<Rightarrow> bool" where
  "is_file w p \<longleftrightarrow> isfile w (path_str p)"

text \<open>The loop test \<^verbatim>\<open>current != previous\<close>, where \<^verbatim>\<open>previous\<close> starts as \<^verbatim>\<open>None\<close>.\<close>

definition differs :: "Path \<Rightarrow> Path option \<Rightarrow> bool" where
  "differs current previous \<longleftrightarrow>
     (case previous of None \<Rightarrow> True | Some q \<Rightarrow> \<not> path_eq current q)"

subsection \<open>\<^verbatim>\<open>discover_git\<close>\<close>

function discover_git_loop :: "'r world \<Rightarrow> Path \<Rightarrow> Path option \<Rightarrow> error + Path option" where
  "discover_git_loop w current previous =
     (if is_dir w current \<and> differs current previous then
        (let dotgit = joinpath current ''.git'' in
         if is_dir w dotgit then Inr (Some current)
         else if is_file w dotgit then
           (case read_text w (path_str dotgit) of
              Inl e \<Rightarrow> Inl e
            | Inr content \<Rightarrow>
                (let dotgit_content = strip content in
                 if startswith dotgit_content ''gitdir: '' then
                   (case str_split ''gitdir: '' dotgit_content of
                      _ # x # _ \<Rightarrow> Inr (Some (Path_of x))
                    | _ \<Rightarrow> Inl IndexError)
                 else discover_git_loop w (parent current) (Some current)))
         else discover_git_loop w (parent current) (Some current))
      else Inr None)"
  by pat_completeness auto
termination
proof (relation "measure (\<lambda>(w, current, previous).
          length (tail current) + (if differs current previous then 1 else 0))")
qed (auto simp: parent_def differs_def path_eq_def)

text \<open>
  The same loop with a bound on the number of times its body may run: \<open>None\<close> when
  the bound is used up before the loop ends.
\<close>

fun discover_git_fuel ::
  "nat \<Rightarrow> 'r world \<Rightarrow> Path \<Rightarrow> Path option \<Rightarrow> (error + Path option) option" where
  "discover_git_fuel 0 w current previous =
     (if is_dir w current \<and> differs current previous then None else Some (Inr None))"
| "discover_git_fuel (Suc n) w current previous =
     (if is_dir w current \<and> differs current previous then
        (let dotgit = joinpath current ''.git'' in
         if is_dir w dotgit then Some (Inr (Some current))
         else if is_file w dotgit then
           (case read_text w (path_str dotgit) of
              Inl e \<Rightarrow> Some (Inl e)
            | Inr content \<Rightarrow>
                (let dotgit_content = strip content in
                 if startswith dotgit_content ''gitdir: '' then
                   (case str_split ''gitdir: '' dotgit_content of
                      _ # x # _ \<Rightarrow> Some (Inr (Some (Path_of x)))
                    | _ \<Rightarrow> Some (Inl IndexError))
                 else discover_git_fuel n w (parent current) (Some current)))
         else discover_git_fuel n w (parent current) (Some current))
      else Some (Inr None))"

text \<open>
  A directory at which the loop of \<^verbatim>\<open>discover_git\<close> goes on to the parent: it is a
  directory other than its own parent, its \<^verbatim>\<open>.git\<close> is not a directory and, when it is
  a file, the file can be read and its text does not start with \<^verbatim>\<open>gitdir: \<close>.
\<close>

definition steps_over :: "'r world \<Rightarrow> Path \<Rightarrow> bool" where
  "steps_over w d \<longleftrightarrow>
     is_dir w d \<and> \<not> path_eq (parent d) d \<and>
     \<not> is_dir w (joinpath d ''.git'') \<and>
     (is_file w (joinpath d ''.git'') \<longrightarrow>
        (case read_text w (path_str (joinpath d ''.git'')) of
           Inl e \<Rightarrow> False
         | Inr content \<Rightarrow> \<not> startswith (strip content) ''gitdir: ''))"

text \<open>The number of entries of \<^verbatim>\<open>p.parts\<close>: the root, when there is one, and the components.\<close>

definition depth :: "Path \<Rightarrow> nat" where
  "depth p = (if root p = [] then 0 else 1) + length (tail p)"

definition discover_git :: "'r world \<Rightarrow> Path \<Rightarrow> error + Path option" where
  "discover_git w location =
     (case resolve w location of
        Inl e \<Rightarrow> Inl e
      | Inr current \<Rightarrow> discover_git_loop w current None)"

subsection \<open>\<^verbatim>\<open>discover_closest_flake\<close>\<close>

function discover_closest_flake_loop :: "'r world \<Rightarrow> Path \<Rightarrow> Path option \<Rightarrow> Path option" where
  "discover_closest_flake_loop w current previous =
     (if is_dir w current \<and> differs current previous then
        (let flake_file = joinpath current ''flake.nix'' in
         if is_file w flake_file then Some current
         else discover_closest_flake_loop w (parent current) (Some current))
      else None)"
  by pat_completeness auto
termination
proof (relation "measure (\<lambda>(w, current, previous).
          length (tail current) + (if differs current previous then 1 else 0))")
qed (auto simp: parent_def differs_def path_eq_def)

fun discover_closest_flake_fuel ::
  "nat \<Rightarrow> 'r world \<Rightarrow> Path \<Rightarrow> Path option \<Rightarrow> Path option option" where
  "discover_closest_flake_fuel 0 w current previous =
     (if is_dir w current \<and> differs current previous then None else Some None)"
| "discover_closest_flake_fuel (Suc n) w current previous =
     (if is_dir w current \<and> differs current previous then
        (let flake_file = joinpath current ''flake.nix'' in
         if is_file w flake_file then Some (Some current)
         else discover_closest_flake_fuel n w (parent current) (Some current))
      else Some None)"

definition discover_closest_flake :: "'r world \<Rightarrow> Path \<Rightarrow> error + Path option" where
  "discover_closest_flake w location =
     (case resolve w location of
        Inl e \<Rightarrow> Inl e
      | Inr current \<Rightarrow> Inr (discover_closest_flake_loop w current None))"

subsection \<open>\<^verbatim>\<open>get_hostname\<close>\<close>

text \<open>
  \<^verbatim>\<open>if target_host:\<close> holds for every instance of \<^verbatim>\<open>Remote\<close> and fails for
  \<^verbatim>\<open>None\<close>. The \<^verbatim>\<open>except\<close> clause catches \<^verbatim>\<open>AttributeError\<close> and
  \<^verbatim>\<open>CalledProcessError\<close>; any other exception leaves the function.
\<close>

definition get_hostname :: "'r world \<Rightarrow> 'r option \<Rightarrow> error + string option" where
  "get_hostname w target_host =
     (case target_host of
        Some h \<Rightarrow>
          (case run_wrapper w h of
             Inr out \<Rightarrow> Inr (Some (strip out))
           | Inl e \<Rightarrow>
               if e = AttributeError \<or> e = CalledProcessError then Inr None else Inl e)
      | None \<Rightarrow> Inr (Some (platform_node w)))"

subsection \<open>\<^verbatim>\<open>Flake\<close>\<close>

text \<open>The field \<^verbatim>\<open>path: Path | str\<close>.\<close>

datatype location = Str string | PathObj Path

record Flake =
  path :: location
  attr :: string

definition location_str :: "location \<Rightarrow> string" where
  "location_str l = (case l of Str s \<Rightarrow> s | PathObj p \<Rightarrow> path_str p)"

text \<open>\<^verbatim>\<open>Flake.__str__\<close>: \<^verbatim>\<open>f"{self.path}#{self.attr}"\<close>.\<close>

definition Flake_str :: "Flake \<Rightarrow> string" where
  "Flake_str f = location_str (path f) @ ''#'' @ attr f"

text \<open>
  The name \<^verbatim>\<open>attr or get_hostname(target_host) or "default"\<close>: \<^verbatim>\<open>or\<close> evaluates its
  right operand only when the left one is empty or \<^verbatim>\<open>None\<close>.
\<close>

definition attr_name :: "'r world \<Rightarrow> string \<Rightarrow> 'r option \<Rightarrow> error + string" where
  "attr_name w a target_host =
     (if a \<noteq> [] then Inr a
      else (case get_hostname w target_host of
              Inl e \<Rightarrow> Inl e
            | Inr None \<Rightarrow> Inr ''default''
            | Inr (Some h) \<Rightarrow> Inr (if h \<noteq> [] then h else ''default'')))"

definition parse :: "'r world \<Rightarrow> string \<Rightarrow> 'r option \<Rightarrow> error + Flake" where
  "parse w flake_str target_host =
     (case re_match flake_str of
        None \<Rightarrow> Inl AssertionError
      | Some (path_str', a) \<Rightarrow>
          (case attr_name w a target_host of
             Inl e \<Rightarrow> Inl e
           | Inr name \<Rightarrow>
               (let nixos_attr = ''nixosConfigurations.\"'' @ name @ ''\"'' in
                if CHR '':'' \<in> set path_str' then Inr \<lparr>path = Str path_str', attr = nixos_attr\<rparr>
                else
                  (let p = Path_of path_str' in
                   case discover_git w p of
                     Inl e \<Rightarrow> Inl e
                   | Inr (Some git_repo) \<Rightarrow>
                       (let url = ''git+file://'' @ path_str git_repo in
                        case discover_closest_flake w p of
                          Inl e \<Rightarrow> Inl e
                        | Inr flake_path \<Rightarrow>
                            (case flake_path of
                               Some fp \<Rightarrow>
                                 if \<not> path_eq fp git_repo \<and> is_relative_to fp git_repo then
                                   (case relative_to fp git_repo of
                                      Inl e \<Rightarrow> Inl e
                                    | Inr rel \<Rightarrow>
                                        Inr \<lparr>path = Str (url @ ''?dir='' @ path_str rel),
                                             attr = nixos_attr\<rparr>)
                                 else Inr \<lparr>path = Str url, attr = nixos_attr\<rparr>
                             | None \<Rightarrow> Inr \<lparr>path = Str url, attr = nixos_attr\<rparr>))
                   | Inr None \<Rightarrow> Inr \<lparr>path = PathObj p, attr = nixos_attr\<rparr>))))"

subsection \<open>Example environments\<close>

text \<open>
  A repository \<^verbatim>\<open>/R\<close> whose manifest lies in \<^verbatim>\<open>/R/sub/dir\<close>. The remote
  \<^verbatim>\<open>host-a\<close> answers \<^verbatim>\<open>uname -n\<close>, on any other the command fails.
\<close>

definition monorepo :: "string world" where
  "monorepo =
     \<lparr>realpath = (\<lambda>s. Inr s),
      isdir = (\<lambda>s. s \<in> set [''/'', ''/R'', ''/R/.git'', ''/R/sub'', ''/R/sub/dir'']),
      isfile = (\<lambda>s. s = ''/R/sub/dir/flake.nix''),
      read_text = (\<lambda>s. Inl OSError),
      run_wrapper = (\<lambda>h. if h = ''host-a'' then Inr ''alpha\<newline>'' else Inl CalledProcessError),
      platform_node = ''localhost''\<rparr>"

text \<open>A work tree \<^verbatim>\<open>/wt\<close> whose \<^verbatim>\<open>.git\<close> is a file with the given text.\<close>

definition worktree :: "string \<Rightarrow> string world" where
  "worktree content =
     \<lparr>realpath = (\<lambda>s. Inr s),
      isdir = (\<lambda>s. s \<in> set [''/'', ''/wt'', ''/wt/src'']),
      isfile = (\<lambda>s. s = ''/wt/.git''),
      read_text = (\<lambda>s. if s = ''/wt/.git'' then Inr content else Inl OSError),
      run_wrapper = (\<lambda>h. Inl CalledProcessError),
      platform_node = ''localhost''\<rparr>"

section \<open>Properties\<close>

declare discover_git_loop.simps [simp del]

declare discover_closest_flake_loop.simps [simp del]

subsection \<open>What \<^verbatim>\<open>strip\<close> removes\<close>

text \<open>
  White space beyond ASCII is removed too: a no-break space before the key does not
  hide it, and one after the key leaves \<^verbatim>\<open>gitdir:\<close> without its space.
\<close>

lemma strip_no_break_space:
  "strip (CHR 0xA0 # ''gitdir: /x'') = ''gitdir: /x''"
  "strip (''gitdir: '' @ [CHR 0xA0]) = ''gitdir:''"
  "strip (CHR 0x85 # ''  a b'' @ [CHR 0x1F, CHR 0x0B]) = ''a b''"
  by code_simp+

lemma pointer_after_no_break_space:
  "discover_git (worktree (CHR 0xA0 # ''gitdir: /x'')) (Path_of ''/wt'') =
     Inr (Some (Path ''/'' [''x'']))"
  "discover_git (worktree (''gitdir: '' @ [CHR 0xA0])) (Path_of ''/wt'') = Inr None"
  "\<not> steps_over (worktree (CHR 0xA0 # ''gitdir: /other'')) (Path_of ''/wt'')"
  by code_simp+

subsection \<open>What the regular expression matches\<close>

text \<open>
  The matcher is only unfolded through the lemmas of this subsection, which lead to a
  closed form: the path group is the text before the first \<^verbatim>\<open>#\<close>, the attribute group
  is the text after it, and there is a match exactly when the latter holds neither
  \<^verbatim>\<open>#\<close> nor \<^verbatim>\<open>"\<close>.
\<close>

declare re_seq.simps [simp del]

lemma re_seq_Nil: "re_seq [] s = (if s = [] \<or> s = [CHR 0x0A] then Some [] else None)"
  by (rule re_seq.simps)

lemma first_some_rev_upt_None:
  "(\<forall>k<n. f k = None) \<Longrightarrow> first_some (map f (rev [0..<n])) = None"
  by (induction n) auto

lemma takeWhile_short:
  assumes "\<not> list_all P s"
  shows "length (takeWhile P s) < length s"
proof (rule ccontr)
  assume "\<not> length (takeWhile P s) < length s"
  then have "take (length (takeWhile P s)) s = s" by simp
  then have "takeWhile P s = s" using takeWhile_eq_take [of P s] by simp
  then show False using assms by (simp add: takeWhile_eq_all_conv list_all_iff)
qed

lemma re_seq_Star_unfold:
  "re_seq (Star P # items) s =
     first_some (map (\<lambda>k. map_option (Cons (take k s)) (re_seq items (drop k s)))
                     (rev [0..<Suc (length (takeWhile P s))]))"
  by (rule re_seq.simps)

lemma first_some_rev_upt_Suc:
  "first_some (map f (rev [0..<Suc n])) =
     (case f n of Some r \<Rightarrow> Some r | None \<Rightarrow> first_some (map f (rev [0..<n])))"
  by (cases "f n") simp_all

lemma re_seq_star_last:
  assumes nl: "P (CHR 0x0A)"
  shows "re_seq [Star P] s = (if list_all P s then Some [s] else None)"
proof (cases "list_all P s")
  case True
  then have tw: "takeWhile P s = s"
    by (simp add: list_all_iff)
  have "re_seq [Star P] s = Some [s]"
    unfolding re_seq_Star_unfold first_some_rev_upt_Suc tw by (simp add: re_seq_Nil)
  then show ?thesis using True by simp
next
  case False
  let ?m = "length (takeWhile P s)"
  have lt: "?m < length s"
    using False by (rule takeWhile_short)
  have bad: "\<not> P (s ! ?m)"
    using lt by (rule nth_length_takeWhile)
  have none: "map_option (Cons (take k s)) (re_seq [] (drop k s)) = None" if "k < Suc ?m" for k
  proof -
    have k: "k \<le> ?m" using that by simp
    have ne: "drop k s \<noteq> []" using k lt by simp
    have "drop k s \<noteq> [CHR 0x0A]"
    proof
      assume eq: "drop k s = [CHR 0x0A]"
      then have "length (drop k s) = 1" by simp
      then have "length s - k = 1" by simp
      with k lt have km: "k = ?m" by simp
      have "s ! ?m = hd (drop ?m s)" using lt by (simp add: hd_drop_conv_nth)
      with eq km have "s ! ?m = CHR 0x0A" by simp
      with bad nl show False by simp
    qed
    with ne show ?thesis by (simp add: re_seq_Nil)
  qed
  have "re_seq [Star P] s = None"
    unfolding re_seq_Star_unfold
    by (rule first_some_rev_upt_None) (use none in blast)
  with False show ?thesis by simp
qed

lemma re_seq_Opt_unfold:
  "re_seq (Opt c # items) s =
     first_some [case s of [] \<Rightarrow> None | x # xs \<Rightarrow> if x = c then re_seq items xs else None,
                 re_seq items s]"
  by (rule re_seq.simps)

lemma re_seq_opt_star:
  assumes nl: "P (CHR 0x0A)" and c: "\<not> P c"
  shows "re_seq [Opt c, Star P] t =
           (case t of [] \<Rightarrow> Some [[]]
            | x # xs \<Rightarrow> if x = c then (if list_all P xs then Some [xs] else None)
                        else (if list_all P t then Some [t] else None))"
proof (cases t)
  case Nil
  then show ?thesis
    unfolding re_seq_Opt_unfold re_seq_star_last [where P = P, OF nl] by simp
next
  case (Cons x xs)
  show ?thesis
  proof (cases "x = c")
    case True
    with c have "\<not> list_all P t" using Cons by simp
    then show ?thesis
      unfolding re_seq_Opt_unfold re_seq_star_last [where P = P, OF nl] using Cons True
      by (cases "list_all P xs") simp_all
  next
    case False
    then show ?thesis
      unfolding re_seq_Opt_unfold re_seq_star_last [where P = P, OF nl] using Cons by simp
  qed
qed

lemma not_hash_quote_nl: "not_hash_quote (CHR 0x0A)"
  by (simp add: not_hash_quote_def)

lemma not_hash_quote_hash: "\<not> not_hash_quote CHR ''#''"
  by (simp add: not_hash_quote_def)

lemma dropWhile_not_hash_cases:
  obtains "dropWhile not_hash s = []"
  | a where "dropWhile not_hash s = CHR ''#'' # a"
proof (cases "dropWhile not_hash s")
  case Nil
  then show ?thesis by (rule that(1))
next
  case (Cons x a)
  then have "\<not> not_hash (hd (dropWhile not_hash s))"
    using hd_dropWhile [of not_hash s] by simp
  with Cons have "x = CHR ''#''" by (simp add: not_hash_def)
  with Cons show ?thesis by (intro that(2)) simp
qed

lemma re_seq_Flake_re:
  "re_seq Flake_re s =
     (case dropWhile not_hash s of
        [] \<Rightarrow> Some [takeWhile not_hash s, []]
      | h # a \<Rightarrow> if list_all not_hash_quote a then Some [takeWhile not_hash s, a] else None)"
proof -
  let ?n = "length (takeWhile not_hash s)"
  let ?f = "\<lambda>k. map_option (Cons (take k s))
                  (re_seq [Opt CHR ''#'', Star not_hash_quote] (drop k s))"
  note os = re_seq_opt_star [where P = not_hash_quote and c = "CHR ''#''",
      OF not_hash_quote_nl not_hash_quote_hash]
  have unf: "re_seq Flake_re s =
      (case ?f ?n of Some r \<Rightarrow> Some r | None \<Rightarrow> first_some (map ?f (rev [0..<?n])))"
    unfolding Flake_re_def re_seq_Star_unfold first_some_rev_upt_Suc ..
  have tk: "take ?n s = takeWhile not_hash s"
    by (rule takeWhile_eq_take [symmetric])
  have dr: "drop ?n s = dropWhile not_hash s"
    by (rule dropWhile_eq_drop [symmetric])
  show ?thesis
  proof (cases s rule: dropWhile_not_hash_cases)
    case 1
    have "drop ?n s = []" using 1 dr by simp
    then have fn: "?f ?n = Some [takeWhile not_hash s, []]"
      by (simp add: os tk)
    show ?thesis unfolding unf fn 1 by simp
  next
    case (2 a)
    have dn: "drop ?n s = CHR ''#'' # a" using 2 dr by simp
    show ?thesis
    proof (cases "list_all not_hash_quote a")
      case True
      have fn: "?f ?n = Some [takeWhile not_hash s, a]"
        using True by (simp add: os tk dn)
      show ?thesis unfolding unf fn 2 using True by simp
    next
      case False
      have fn: "?f ?n = None" using False by (simp add: os dn)
      have lt: "?n < length s"
        using dn by (cases "?n < length s") simp_all
      have hn: "CHR ''#'' \<in> set (drop ?n s)"
        using dn by simp
      have none: "?f k = None" if "k < ?n" for k
      proof -
        have kl: "k < length s" using that lt by simp
        have "takeWhile not_hash s ! k \<in> set (takeWhile not_hash s)"
          using that by (rule nth_mem)
        then have "not_hash (takeWhile not_hash s ! k)" by (rule set_takeWhileD [THEN conjunct2])
        then have nk: "s ! k \<noteq> CHR ''#''"
          using that by (simp add: takeWhile_nth not_hash_def)
        have dk: "drop k s = s ! k # drop (Suc k) s"
          using kl by (rule Cons_nth_drop_Suc [symmetric])
        have "set (drop ?n s) \<subseteq> set (drop k s)"
          using that by (intro set_drop_subset_set_drop) simp
        with hn have "CHR ''#'' \<in> set (drop k s)" by blast
        then have nq: "\<not> list_all not_hash_quote (drop k s)"
          by (auto simp: list_all_iff not_hash_quote_def)
        have "re_seq [Opt CHR ''#'', Star not_hash_quote] (drop k s) = None"
          unfolding os using nq nk by (subst (1 2) dk) simp
        then show ?thesis by simp
      qed
      have "first_some (map ?f (rev [0..<?n])) = None"
        by (rule first_some_rev_upt_None) (use none in blast)
      then show ?thesis unfolding unf fn 2 using False by simp
    qed
  qed
qed

lemma re_match_closed:
  "re_match s =
     (case dropWhile not_hash s of
        [] \<Rightarrow> Some (takeWhile not_hash s, [])
      | h # a \<Rightarrow> if list_all not_hash_quote a then Some (takeWhile not_hash s, a) else None)"
proof (cases "dropWhile not_hash s")
  case Nil
  show ?thesis unfolding re_match_def re_seq_Flake_re Nil by simp
next
  case (Cons h a)
  show ?thesis unfolding re_match_def re_seq_Flake_re Cons by simp
qed

lemma re_match_no_hash:
  assumes "CHR ''#'' \<notin> set s"
  shows "re_match s = Some (s, [])"
proof -
  have "\<forall>c\<in>set s. not_hash c" using assms by (auto simp: not_hash_def)
  then have tw: "takeWhile not_hash s = s" and dw: "dropWhile not_hash s = []" by simp_all
  show ?thesis unfolding re_match_closed tw dw by simp
qed

lemma re_match_hash:
  assumes "CHR ''#'' \<notin> set p"
  shows "re_match (p @ CHR ''#'' # a) = (if list_all not_hash_quote a then Some (p, a) else None)"
proof -
  have all: "\<forall>c\<in>set p. not_hash c" using assms by (auto simp: not_hash_def)
  have tw: "takeWhile not_hash (p @ CHR ''#'' # a) = p"
    using all by (simp add: takeWhile_append2 not_hash_def)
  have dw: "dropWhile not_hash (p @ CHR ''#'' # a) = CHR ''#'' # a"
    using all by (simp add: dropWhile_append2 not_hash_def)
  show ?thesis unfolding re_match_closed tw dw by simp
qed

lemma re_match_SomeD:
  assumes "re_match s = Some (p, a)"
  shows "CHR ''#'' \<notin> set p" and "list_all not_hash_quote a"
    and "s = p \<or> s = p @ CHR ''#'' # a" and "a \<noteq> [] \<Longrightarrow> s = p @ CHR ''#'' # a"
proof -
  have sp: "s = takeWhile not_hash s @ dropWhile not_hash s" by simp
  have nh: "CHR ''#'' \<notin> set (takeWhile not_hash s)"
    using set_takeWhileD [of "CHR ''#''" not_hash s] by (auto simp: not_hash_def)
  have "CHR ''#'' \<notin> set p \<and> list_all not_hash_quote a \<and> (s = p \<or> s = p @ CHR ''#'' # a)
        \<and> (a \<noteq> [] \<longrightarrow> s = p @ CHR ''#'' # a)"
  proof (cases s rule: dropWhile_not_hash_cases)
    case 1
    from assms have "p = takeWhile not_hash s" "a = []"
      unfolding re_match_closed 1 by simp_all
    then show ?thesis using sp nh unfolding 1 by simp
  next
    case (2 b)
    from assms have "list_all not_hash_quote b \<and> p = takeWhile not_hash s \<and> a = b"
      unfolding re_match_closed 2 by (simp split: if_splits)
    then show ?thesis using sp nh unfolding 2 by simp
  qed
  then show "CHR ''#'' \<notin> set p" and "list_all not_hash_quote a"
    and "s = p \<or> s = p @ CHR ''#'' # a" and "a \<noteq> [] \<Longrightarrow> s = p @ CHR ''#'' # a"
    by simp_all
qed

lemma re_match_NoneD:
  "(re_match s = None) = (\<not> list_all not_hash_quote (drop 1 (dropWhile not_hash s)))"
proof (cases s rule: dropWhile_not_hash_cases)
  case 1
  show ?thesis unfolding re_match_closed 1 by simp
next
  case (2 a)
  show ?thesis unfolding re_match_closed 2 by simp
qed

subsection \<open>The branches of \<^verbatim>\<open>parse\<close>\<close>

lemma quote_in_nixos_attr:
  "\<not> list_all not_hash_quote (''nixosConfigurations.\"'' @ name @ ''\"'')"
  by (simp add: not_hash_quote_def)

lemma parse_no_match: "re_match raw = None \<Longrightarrow> parse w raw h = Inl AssertionError"
  by (simp add: parse_def)

lemma parse_url:
  assumes "re_match raw = Some (p, a)" and "CHR '':'' \<in> set p"
  shows "parse w raw h =
           (case attr_name w a h of
              Inl e \<Rightarrow> Inl e
            | Inr name \<Rightarrow> Inr \<lparr>path = Str p, attr = ''nixosConfigurations.\"'' @ name @ ''\"''\<rparr>)"
  using assms by (simp add: parse_def split: sum.splits)

lemma attr_name_nonempty: "attr_name w a h = Inr name \<Longrightarrow> name \<noteq> []"
  by (auto simp: attr_name_def split: if_splits sum.splits option.splits)

lemma attr_name_explicit: "a \<noteq> [] \<Longrightarrow> attr_name w a h = Inr a"
  by (simp add: attr_name_def)

lemma parse_InrD:
  assumes "parse w raw h = Inr f"
  shows "\<exists>p a name. re_match raw = Some (p, a) \<and> attr_name w a h = Inr name \<and>
           attr f = ''nixosConfigurations.\"'' @ name @ ''\"''"
proof (cases "re_match raw")
  case None
  with assms show ?thesis by (simp add: parse_def)
next
  case (Some pa)
  obtain p a where pa: "pa = (p, a)" by (cases pa)
  show ?thesis
  proof (cases "attr_name w a h")
    case (Inl e)
    with assms Some pa show ?thesis by (simp add: parse_def)
  next
    case (Inr name)
    have "attr f = ''nixosConfigurations.\"'' @ name @ ''\"''"
      using assms Some pa Inr
      by (auto simp: parse_def Let_def split: if_splits sum.splits option.splits)
    with Some pa Inr show ?thesis by blast
  qed
qed

subsection \<open>Which part of the environment each function reads\<close>

lemma get_hostname_cong:
  assumes "run_wrapper w' = run_wrapper w" and "platform_node w' = platform_node w"
  shows "get_hostname w' h = get_hostname w h"
  using assms by (simp add: get_hostname_def split: option.splits)

lemma attr_name_cong:
  assumes "run_wrapper w' = run_wrapper w" and "platform_node w' = platform_node w"
  shows "attr_name w' a h = attr_name w a h"
  unfolding attr_name_def get_hostname_cong [OF assms] ..

lemma is_dir_cong: "isdir w' = isdir w \<Longrightarrow> is_dir w' = is_dir w"
  by (simp add: is_dir_def fun_eq_iff)

lemma is_file_cong: "isfile w' = isfile w \<Longrightarrow> is_file w' = is_file w"
  by (simp add: is_file_def fun_eq_iff)

lemma discover_git_loop_cong:
  "isdir w' = isdir w \<Longrightarrow> isfile w' = isfile w \<Longrightarrow> read_text w' = read_text w \<Longrightarrow>
   discover_git_loop w' c q = discover_git_loop w c q"
proof (induction w c q rule: discover_git_loop.induct)
  case (1 w current previous)
  note d = is_dir_cong [OF "1.prems"(1)] and f = is_file_cong [OF "1.prems"(2)]
    and r = "1.prems"(3)
  show ?case
    unfolding discover_git_loop.simps [of w' current previous]
      discover_git_loop.simps [of w current previous]
    using "1.IH" "1.prems"
    by (simp add: d f r Let_def split: sum.splits)
qed

lemma discover_closest_flake_loop_cong:
  "isdir w' = isdir w \<Longrightarrow> isfile w' = isfile w \<Longrightarrow>
   discover_closest_flake_loop w' c q = discover_closest_flake_loop w c q"
proof (induction w c q rule: discover_closest_flake_loop.induct)
  case (1 w current previous)
  note d = is_dir_cong [OF "1.prems"(1)] and f = is_file_cong [OF "1.prems"(2)]
  show ?case
    unfolding discover_closest_flake_loop.simps [of w' current previous]
      discover_closest_flake_loop.simps [of w current previous]
    using "1.IH" "1.prems"
    by (simp add: d f Let_def)
qed

lemma resolve_cong: "realpath w' = realpath w \<Longrightarrow> resolve w' p = resolve w p"
  by (simp add: resolve_def)

lemma discover_git_cong:
  assumes "realpath w' = realpath w" and "isdir w' = isdir w" and "isfile w' = isfile w"
    and "read_text w' = read_text w"
  shows "discover_git w' p = discover_git w p"
  unfolding discover_git_def resolve_cong [OF assms(1)]
    discover_git_loop_cong [OF assms(2,3,4)] ..

lemma discover_closest_flake_cong:
  assumes "realpath w' = realpath w" and "isdir w' = isdir w" and "isfile w' = isfile w"
  shows "discover_closest_flake w' p = discover_closest_flake w p"
  unfolding discover_closest_flake_def resolve_cong [OF assms(1)]
    discover_closest_flake_loop_cong [OF assms(2,3)] ..

section \<open>The claims\<close>

subsection \<open>C2: which strings the regular expression splits\<close>

text \<open>
  C2 says that the regular expression matches every string, so that the assertion of
  \<^verbatim>\<open>parse\<close> never fails. It does not: a second \<^verbatim>\<open>#\<close> or a \<^verbatim>\<open>"\<close> after the first
  \<^verbatim>\<open>#\<close> leaves no match.
\<close>

theorem split_total_counterexample:
  "re_match ''.#my\"host\"'' = None \<and> parse monorepo ''.#my\"host\"'' None = Inl AssertionError"
  by code_simp

text \<open>
  C2, as amended: the split succeeds exactly when the text after the first \<^verbatim>\<open>#\<close> holds
  neither \<^verbatim>\<open>#\<close> nor \<^verbatim>\<open>"\<close>; on every other string \<^verbatim>\<open>parse\<close> fails its assertion;
  a string with no \<^verbatim>\<open>#\<close> is split into itself and the empty attribute.
\<close>

theorem split_succeeds_iff:
  "(re_match raw = None \<longleftrightarrow> \<not> list_all not_hash_quote (drop 1 (dropWhile not_hash raw))) \<and>
   (re_match raw = None \<longrightarrow> parse w raw h = Inl AssertionError) \<and>
   (CHR ''#'' \<notin> set raw \<longrightarrow> re_match raw = Some (raw, []))"
  using re_match_NoneD [of raw] parse_no_match [of raw w h] re_match_no_hash [of raw]
  by blast

theorem split_succeeds_iff_witness:
  "re_match ''/etc/nixos#a#b'' = None \<and>
   parse monorepo ''/etc/nixos#a#b'' None = Inl AssertionError \<and>
   re_match ''/etc/nixos'' = Some (''/etc/nixos'', [])"
proof -
  have 1: "\<not> list_all not_hash_quote (drop 1 (dropWhile not_hash ''/etc/nixos#a#b''))"
    by code_simp
  have 2: "CHR ''#'' \<notin> set ''/etc/nixos''"
    by code_simp
  show ?thesis
    using 1 2 split_succeeds_iff [of "''/etc/nixos#a#b''" monorepo None]
      split_succeeds_iff [of "''/etc/nixos''" monorepo None]
    by blast
qed

subsection \<open>C3: parsing the printed form again\<close>

text \<open>
  C3 says that, for an input whose path part holds \<^verbatim>\<open>:\<close>, parsing the printed form of
  the result gives the result again. The printed form quotes the attribute name, and
  the regular expression admits no \<^verbatim>\<open>"\<close> in the attribute part: the second
  \<^verbatim>\<open>parse\<close> fails its assertion.
\<close>

theorem reparse_counterexample:
  "parse monorepo ''github:o/r#h'' None =
     Inr \<lparr>path = Str ''github:o/r'', attr = ''nixosConfigurations.\"h\"''\<rparr> \<and>
   parse monorepo (Flake_str \<lparr>path = Str ''github:o/r'', attr = ''nixosConfigurations.\"h\"''\<rparr>) None =
     Inl AssertionError"
  by code_simp

text \<open>
  C3, as amended: when \<^verbatim>\<open>parse\<close> returns \<open>f\<close> for an input whose path part \<open>p\<close> holds
  \<^verbatim>\<open>:\<close>, then \<open>f\<close> is \<open>p\<close> with the quoted name, its printed form is
  \<^verbatim>\<open>p#nixosConfigurations."name"\<close>, and \<^verbatim>\<open>parse\<close> of that printed form fails the
  assertion, in every environment and for every remote.
\<close>

theorem printed_form_not_reparsed:
  assumes "re_match raw = Some (p, a)" and "CHR '':'' \<in> set p" and "parse w raw h = Inr f"
  shows "\<exists>name. attr_name w a h = Inr name \<and>
           f = \<lparr>path = Str p, attr = ''nixosConfigurations.\"'' @ name @ ''\"''\<rparr> \<and>
           Flake_str f = p @ ''#nixosConfigurations.\"'' @ name @ ''\"'' \<and>
           re_match (Flake_str f) = None \<and>
           parse w' (Flake_str f) h' = Inl AssertionError"
proof (cases "attr_name w a h")
  case (Inl e)
  with assms(3) show ?thesis unfolding parse_url [OF assms(1,2)] by simp
next
  case (Inr name)
  have f: "f = \<lparr>path = Str p, attr = ''nixosConfigurations.\"'' @ name @ ''\"''\<rparr>"
    using assms(3) unfolding parse_url [OF assms(1,2)] Inr by simp
  have nh: "CHR ''#'' \<notin> set p" using assms(1) by (rule re_match_SomeD)
  have str: "Flake_str f = p @ CHR ''#'' # (''nixosConfigurations.\"'' @ name @ ''\"'')"
    unfolding f by (simp add: Flake_str_def location_str_def)
  have none: "re_match (Flake_str f) = None"
    unfolding str re_match_hash [OF nh] using quote_in_nixos_attr [of name] by simp
  then have p: "parse w' (Flake_str f) h' = Inl AssertionError" by (rule parse_no_match)
  have str': "Flake_str f = p @ ''#nixosConfigurations.\"'' @ name @ ''\"''"
    unfolding str by simp
  show ?thesis
    using Inr f str' none p by blast
qed

theorem printed_form_not_reparsed_witness:
  "attr_name monorepo [] (Some ''host-a'') = Inr ''alpha'' \<and>
   Flake_str \<lparr>path = Str ''github:o/r'', attr = ''nixosConfigurations.\"alpha\"''\<rparr> =
     ''github:o/r#nixosConfigurations.\"alpha\"'' \<and>
   parse monorepo ''github:o/r#nixosConfigurations.\"alpha\"'' None = Inl AssertionError"
proof -
  have 1: "re_match ''github:o/r'' = Some (''github:o/r'', [])" by code_simp
  have 2: "CHR '':'' \<in> set ''github:o/r''" by simp
  have 3: "parse monorepo ''github:o/r'' (Some ''host-a'') =
     Inr \<lparr>path = Str ''github:o/r'', attr = ''nixosConfigurations.\"alpha\"''\<rparr>" by code_simp
  have 4: "attr_name monorepo [] (Some ''host-a'') = Inr ''alpha''" by code_simp
  from printed_form_not_reparsed [OF 1 2 3, of monorepo None] 4 show ?thesis
    by auto
qed

subsection \<open>C6: a path part with a scheme\<close>

text \<open>
  C6: when the path part \<open>p\<close> holds \<^verbatim>\<open>:\<close>, \<^verbatim>\<open>parse\<close> returns \<open>p\<close> itself, as a
  string, with the quoted name computed from the attribute part and the host name (or
  the exception that computing the name raised), and the result is the same whatever
  the file system holds: nothing is discovered.
\<close>

theorem parse_url_unchanged:
  assumes "re_match raw = Some (p, a)" and "CHR '':'' \<in> set p"
  shows "parse w raw h =
           (case attr_name w a h of
              Inl e \<Rightarrow> Inl e
            | Inr name \<Rightarrow> Inr \<lparr>path = Str p, attr = ''nixosConfigurations.\"'' @ name @ ''\"''\<rparr>) \<and>
         parse (w\<lparr>realpath := rp, isdir := d, isfile := fl, read_text := rt\<rparr>) raw h = parse w raw h"
proof -
  let ?w = "w\<lparr>realpath := rp, isdir := d, isfile := fl, read_text := rt\<rparr>"
  have "attr_name ?w a h = attr_name w a h"
    by (rule attr_name_cong) simp_all
  then show ?thesis
    unfolding parse_url [OF assms] by simp
qed

theorem parse_url_unchanged_witness:
  "parse monorepo ''github:o/r?dir=x#web'' None =
     Inr \<lparr>path = Str ''github:o/r?dir=x'', attr = ''nixosConfigurations.\"web\"''\<rparr> \<and>
   parse (monorepo\<lparr>realpath := (\<lambda>s. Inl OSError), isdir := (\<lambda>s. False), isfile := (\<lambda>s. False),
                    read_text := (\<lambda>s. Inl OSError)\<rparr>) ''github:o/r?dir=x#web'' None =
     parse monorepo ''github:o/r?dir=x#web'' None"
proof -
  have 1: "re_match ''github:o/r?dir=x#web'' = Some (''github:o/r?dir=x'', ''web'')" by code_simp
  have 2: "CHR '':'' \<in> set ''github:o/r?dir=x''" by simp
  have 3: "attr_name monorepo ''web'' None = Inr ''web''" by code_simp
  from parse_url_unchanged [OF 1 2, of monorepo None "\<lambda>s. Inl OSError" "\<lambda>s. False" "\<lambda>s. False"
      "\<lambda>s. Inl OSError"] 3
  show ?thesis by simp
qed

subsection \<open>C7: the attribute path\<close>

text \<open>
  C7: the attribute of every reference that \<^verbatim>\<open>parse\<close> returns is
  \<^verbatim>\<open>nixosConfigurations."name"\<close> with a non-empty name: the attribute part when it is
  not empty, else the host name when there is a non-empty one, else \<^verbatim>\<open>default\<close>.
\<close>

theorem parse_attr_shape:
  assumes "parse w raw h = Inr f"
  shows "\<exists>p a name. re_match raw = Some (p, a) \<and>
           attr f = ''nixosConfigurations.\"'' @ name @ ''\"'' \<and> name \<noteq> [] \<and> attr f \<noteq> [] \<and>
           (a \<noteq> [] \<longrightarrow> name = a) \<and>
           (a = [] \<longrightarrow> (\<forall>n. get_hostname w h = Inr (Some n) \<and> n \<noteq> [] \<longrightarrow> name = n)) \<and>
           (a = [] \<and> (get_hostname w h = Inr None \<or> get_hostname w h = Inr (Some []))
              \<longrightarrow> name = ''default'')"
proof -
  from parse_InrD [OF assms] obtain p a name where m: "re_match raw = Some (p, a)"
    and n: "attr_name w a h = Inr name"
    and f: "attr f = ''nixosConfigurations.\"'' @ name @ ''\"''"
    by blast
  have ne: "name \<noteq> []" using n by (rule attr_name_nonempty)
  have 1: "a \<noteq> [] \<longrightarrow> name = a" using n by (auto simp: attr_name_def)
  have 2: "a = [] \<longrightarrow> (\<forall>n. get_hostname w h = Inr (Some n) \<and> n \<noteq> [] \<longrightarrow> name = n)"
    using n by (auto simp: attr_name_def)
  have 3: "a = [] \<and> (get_hostname w h = Inr None \<or> get_hostname w h = Inr (Some []))
             \<longrightarrow> name = ''default''"
    using n by (auto simp: attr_name_def)
  have 4: "attr f \<noteq> []" unfolding f by simp
  show ?thesis using m f ne 1 2 3 4 by blast
qed

theorem parse_attr_shape_witness:
  "parse monorepo ''/R/sub/dir'' (Some ''host-b'') =
     Inr \<lparr>path = Str ''git+file:///R?dir=sub/dir'', attr = ''nixosConfigurations.\"default\"''\<rparr> \<and>
   get_hostname monorepo (Some ''host-b'') = Inr None \<and>
   (\<exists>name. name \<noteq> [] \<and> name = ''default'' \<and>
      attr \<lparr>path = Str ''git+file:///R?dir=sub/dir'', attr = ''nixosConfigurations.\"default\"''\<rparr> =
        ''nixosConfigurations.\"'' @ name @ ''\"'')"
proof -
  have 1: "parse monorepo ''/R/sub/dir'' (Some ''host-b'') =
    Inr \<lparr>path = Str ''git+file:///R?dir=sub/dir'', attr = ''nixosConfigurations.\"default\"''\<rparr>"
    by code_simp
  have 2: "get_hostname monorepo (Some ''host-b'') = Inr None" by code_simp
  have 3: "re_match ''/R/sub/dir'' = Some (''/R/sub/dir'', [])" by code_simp
  from parse_attr_shape [OF 1] 3 2 obtain name where "name \<noteq> []" and "name = ''default''"
    and "attr \<lparr>path = Str ''git+file:///R?dir=sub/dir'', attr = ''nixosConfigurations.\"default\"''\<rparr> =
        ''nixosConfigurations.\"'' @ name @ ''\"''"
    by auto
  with 1 2 show ?thesis by blast
qed

subsection \<open>C8: the host name\<close>

text \<open>
  C8: without a remote, \<^verbatim>\<open>get_hostname\<close> returns \<^verbatim>\<open>platform.node()\<close>; with a
  remote on which the command raises \<^verbatim>\<open>AttributeError\<close> or
  \<^verbatim>\<open>CalledProcessError\<close>, it returns \<^verbatim>\<open>None\<close> and raises nothing; when the command
  succeeds it returns the stripped output.
\<close>

theorem get_hostname_best_effort:
  "get_hostname w None = Inr (Some (platform_node w)) \<and>
   (run_wrapper w r = Inl AttributeError \<or> run_wrapper w r = Inl CalledProcessError
      \<longrightarrow> get_hostname w (Some r) = Inr None) \<and>
   (run_wrapper w r = Inr out \<longrightarrow> get_hostname w (Some r) = Inr (Some (strip out)))"
  by (auto simp: get_hostname_def)

theorem get_hostname_best_effort_witness:
  "get_hostname monorepo None = Inr (Some ''localhost'') \<and>
   get_hostname monorepo (Some ''host-b'') = Inr None \<and>
   get_hostname monorepo (Some ''host-a'') = Inr (Some ''alpha'')"
proof -
  have 1: "run_wrapper monorepo ''host-b'' = Inl CalledProcessError" by code_simp
  have 2: "run_wrapper monorepo ''host-a'' = Inr ''alpha\<newline>''" by code_simp
  have 3: "platform_node monorepo = ''localhost''" by code_simp
  have 4: "strip ''alpha\<newline>'' = ''alpha''" by code_simp
  from get_hostname_best_effort [of monorepo "''host-b''"]
    get_hostname_best_effort [of monorepo "''host-a''" "''alpha\<newline>''"] 1 2 3 4
  show ?thesis by simp
qed

subsection \<open>C10: an explicit attribute\<close>

text \<open>
  C10: when the attribute part is not empty, the result of \<^verbatim>\<open>parse\<close> is the same for
  any two remotes, and stays the same when the command runner and the local host name
  are replaced by any others: the host name is not asked for.
\<close>

theorem parse_explicit_attr_ignores_remote:
  assumes "re_match raw = Some (p, a)" and "a \<noteq> []"
  shows "parse w raw h1 = parse w raw h2 \<and>
         parse (w\<lparr>run_wrapper := rw1, platform_node := n1\<rparr>) raw h1 =
         parse (w\<lparr>run_wrapper := rw2, platform_node := n2\<rparr>) raw h2"
proof -
  have eq: "parse w1 raw h1 = parse w2 raw h2"
    if "realpath w1 = realpath w2" "isdir w1 = isdir w2" "isfile w1 = isfile w2"
      "read_text w1 = read_text w2" for w1 w2 :: "'a world"
    by (simp only: parse_def assms(1) option.case prod.case attr_name_explicit [OF assms(2)]
        discover_git_cong [OF that] discover_closest_flake_cong [OF that(1,2,3)])
  show ?thesis
    by (intro conjI eq) simp_all
qed

theorem parse_explicit_attr_ignores_remote_witness:
  "parse monorepo ''/R/sub#web'' (Some ''host-a'') = parse monorepo ''/R/sub#web'' None \<and>
   parse (monorepo\<lparr>run_wrapper := (\<lambda>h. Inl RuntimeError), platform_node := ''x''\<rparr>) ''/R/sub#web'' (Some ''host-a'') =
   parse (monorepo\<lparr>run_wrapper := (\<lambda>h. Inr ''beta''), platform_node := ''y''\<rparr>) ''/R/sub#web'' None"
proof -
  have 1: "re_match ''/R/sub#web'' = Some (''/R/sub'', ''web'')" by code_simp
  have 2: "''web'' \<noteq> []" by simp
  from parse_explicit_attr_ignores_remote [OF 1 2] show ?thesis by blast
qed

subsection \<open>C1: the URL of a path inside a repository\<close>

lemma discover_git_resolved:
  assumes "discover_git w q = Inr r"
  obtains c where "resolve w q = Inr c" and "discover_git_loop w c None = Inr r"
  using assms by (cases "resolve w q") (simp_all add: discover_git_def)

lemma relative_to_nested:
  "is_relative_to fp R \<Longrightarrow> relative_to fp R = Inr (Path [] (drop (length (tail R)) (tail fp)))"
  by (simp add: relative_to_def)

lemma parse_local:
  assumes "re_match raw = Some (p, a)" and "CHR '':'' \<notin> set p"
    and "discover_git w (Path_of p) = Inr (Some R)"
    and "discover_closest_flake w (Path_of p) = Inr F"
  shows "parse w raw h =
           (case attr_name w a h of
              Inl e \<Rightarrow> Inl e
            | Inr name \<Rightarrow>
                Inr \<lparr>path = Str (''git+file://'' @ path_str R @
                        (case F of
                           None \<Rightarrow> []
                         | Some fp \<Rightarrow>
                             if \<not> path_eq fp R \<and> is_relative_to fp R
                             then ''?dir='' @ path_str (Path [] (drop (length (tail R)) (tail fp)))
                             else [])),
                     attr = ''nixosConfigurations.\"'' @ name @ ''\"''\<rparr>)"
  using assms
  by (simp add: parse_def Let_def relative_to_nested split: sum.splits option.splits)

text \<open>
  C1: let the path part \<open>p\<close> hold no \<^verbatim>\<open>:\<close> and let \<^verbatim>\<open>discover_git\<close> find the
  repository \<open>R\<close> from it. Then \<^verbatim>\<open>discover_closest_flake\<close>, started from \<open>p\<close>, returns
  some \<open>F\<close>, and the location that \<^verbatim>\<open>parse\<close> returns is \<^verbatim>\<open>git+file://R\<close>, followed by
  \<^verbatim>\<open>?dir=\<close> and \<open>F\<close> relative to \<open>R\<close> exactly when \<open>F\<close> is a directory that differs
  from \<open>R\<close> and lies under it, and by nothing otherwise. (When computing the
  attribute name raises, \<^verbatim>\<open>parse\<close> raises the same exception.)
\<close>

theorem parse_git_url:
  assumes "re_match raw = Some (p, a)" and "CHR '':'' \<notin> set p"
    and "discover_git w (Path_of p) = Inr (Some R)"
  shows "\<exists>F. discover_closest_flake w (Path_of p) = Inr F \<and>
           ((\<exists>fp. F = Some fp \<and> \<not> path_eq fp R \<and> is_relative_to fp R) \<longrightarrow>
              (\<exists>fp rel. F = Some fp \<and> relative_to fp R = Inr rel \<and>
                 parse w raw h =
                   (case attr_name w a h of
                      Inl e \<Rightarrow> Inl e
                    | Inr name \<Rightarrow>
                        Inr \<lparr>path = Str (''git+file://'' @ path_str R @ ''?dir='' @ path_str rel),
                             attr = ''nixosConfigurations.\"'' @ name @ ''\"''\<rparr>))) \<and>
           (\<not> (\<exists>fp. F = Some fp \<and> \<not> path_eq fp R \<and> is_relative_to fp R) \<longrightarrow>
              parse w raw h =
                (case attr_name w a h of
                   Inl e \<Rightarrow> Inl e
                 | Inr name \<Rightarrow>
                     Inr \<lparr>path = Str (''git+file://'' @ path_str R),
                          attr = ''nixosConfigurations.\"'' @ name @ ''\"''\<rparr>))"
proof -
  from assms(3) obtain c where c: "resolve w (Path_of p) = Inr c"
    by (rule discover_git_resolved)
  define F where "F = discover_closest_flake_loop w c None"
  have F: "discover_closest_flake w (Path_of p) = Inr F"
    by (simp add: discover_closest_flake_def c F_def)
  note pl = parse_local [OF assms F, of h]
  show ?thesis
  proof (intro exI [of _ F] conjI impI)
    show "discover_closest_flake w (Path_of p) = Inr F" by (rule F)
  next
    assume "\<exists>fp. F = Some fp \<and> \<not> path_eq fp R \<and> is_relative_to fp R"
    then obtain fp where fp: "F = Some fp" "\<not> path_eq fp R" "is_relative_to fp R" by blast
    have "parse w raw h =
        (case attr_name w a h of
           Inl e \<Rightarrow> Inl e
         | Inr name \<Rightarrow>
             Inr \<lparr>path = Str (''git+file://'' @ path_str R @ ''?dir='' @
                       path_str (Path [] (drop (length (tail R)) (tail fp)))),
                  attr = ''nixosConfigurations.\"'' @ name @ ''\"''\<rparr>)"
      unfolding pl using fp by (cases "attr_name w a h") simp_all
    with fp(1) relative_to_nested [OF fp(3)]
    show "\<exists>fp rel. F = Some fp \<and> relative_to fp R = Inr rel \<and>
        parse w raw h =
          (case attr_name w a h of
             Inl e \<Rightarrow> Inl e
           | Inr name \<Rightarrow>
               Inr \<lparr>path = Str (''git+file://'' @ path_str R @ ''?dir='' @ path_str rel),
                    attr = ''nixosConfigurations.\"'' @ name @ ''\"''\<rparr>)"
      by blast
  next
    assume n: "\<not> (\<exists>fp. F = Some fp \<and> \<not> path_eq fp R \<and> is_relative_to fp R)"
    show "parse w raw h =
        (case attr_name w a h of
           Inl e \<Rightarrow> Inl e
         | Inr name \<Rightarrow>
             Inr \<lparr>path = Str (''git+file://'' @ path_str R),
                  attr = ''nixosConfigurations.\"'' @ name @ ''\"''\<rparr>)"
      unfolding pl using n by (cases F; cases "attr_name w a h") auto
  qed
qed

theorem parse_git_url_witness:
  "discover_git monorepo (Path_of ''/R/sub/dir'') = Inr (Some (Path ''/'' [''R''])) \<and>
   discover_closest_flake monorepo (Path_of ''/R/sub/dir'') = Inr (Some (Path ''/'' [''R'', ''sub'', ''dir''])) \<and>
   parse monorepo ''/R/sub/dir#web'' None =
     Inr \<lparr>path = Str ''git+file:///R?dir=sub/dir'', attr = ''nixosConfigurations.\"web\"''\<rparr> \<and>
   discover_closest_flake monorepo (Path_of ''/R'') = Inr None \<and>
   parse monorepo ''/R#web'' None =
     Inr \<lparr>path = Str ''git+file:///R'', attr = ''nixosConfigurations.\"web\"''\<rparr>"
proof -
  let ?R = "Path ''/'' [''R'']" and ?F = "Path ''/'' [''R'', ''sub'', ''dir'']"
  have 1: "re_match ''/R/sub/dir#web'' = Some (''/R/sub/dir'', ''web'')" by code_simp
  have 2: "CHR '':'' \<notin> set ''/R/sub/dir''" by code_simp
  have 3: "discover_git monorepo (Path_of ''/R/sub/dir'') = Inr (Some ?R)" by code_simp
  have 4: "discover_closest_flake monorepo (Path_of ''/R/sub/dir'') = Inr (Some ?F)" by code_simp
  have 5: "\<not> path_eq ?F ?R \<and> is_relative_to ?F ?R" by code_simp
  have 6: "relative_to ?F ?R = Inr (Path [] [''sub'', ''dir''])" by code_simp
  have 7: "path_str (Path [] [''sub'', ''dir'']) = ''sub/dir''" "path_str ?R = ''/R''" by code_simp+
  have 8: "attr_name monorepo ''web'' None = Inr ''web''" by code_simp
  have A: "parse monorepo ''/R/sub/dir#web'' None =
     Inr \<lparr>path = Str ''git+file:///R?dir=sub/dir'', attr = ''nixosConfigurations.\"web\"''\<rparr>"
    using parse_git_url [OF 1 2 3, of None] 4 5 6 7 8 by auto
  have b1: "re_match ''/R#web'' = Some (''/R'', ''web'')" by code_simp
  have b2: "CHR '':'' \<notin> set ''/R''" by code_simp
  have b3: "discover_git monorepo (Path_of ''/R'') = Inr (Some ?R)" by code_simp
  have b4: "discover_closest_flake monorepo (Path_of ''/R'') = Inr None" by code_simp
  have B: "parse monorepo ''/R#web'' None =
     Inr \<lparr>path = Str ''git+file:///R'', attr = ''nixosConfigurations.\"web\"''\<rparr>"
    using parse_git_url [OF b1 b2 b3, of None] b4 7 8 by auto
  from 3 4 A b4 B show ?thesis by blast
qed

subsection \<open>C9: the upward walks end within the depth of the path\<close>

lemma differs_self: "\<not> differs c (Some c)"
  by (simp add: differs_def path_eq_def)

lemma walk_measure_parent:
  "length (tail (parent c)) + (if differs (parent c) (Some c) then 1 else 0) \<le> length (tail c)"
proof (cases "tail c = []")
  case True
  then have "parent c = c" by (simp add: parent_def)
  then show ?thesis by (simp add: differs_self)
next
  case False
  then have "length (tail (parent c)) = length (tail c) - 1"
    by (simp add: parent_def)
  with False show ?thesis by (cases "tail c") auto
qed

lemma discover_git_fuel_enough:
  "length (tail c) + (if differs c q then 1 else 0) \<le> n \<Longrightarrow>
   discover_git_fuel n w c q = Some (discover_git_loop w c q)"
proof (induction n arbitrary: c q)
  case 0
  then have "\<not> differs c q" by (simp split: if_splits)
  then show ?case
    by (simp add: discover_git_loop.simps [of w c q])
next
  case (Suc n)
  show ?case
  proof (cases "is_dir w c \<and> differs c q")
    case False
    show ?thesis
      by (simp only: discover_git_loop.simps [of w c q] discover_git_fuel.simps
          if_not_P [OF False])
  next
    case True
    with Suc.prems have "length (tail c) \<le> n" by simp
    with walk_measure_parent [of c]
    have "length (tail (parent c)) + (if differs (parent c) (Some c) then 1 else 0) \<le> n"
      by linarith
    then have IH: "discover_git_fuel n w (parent c) (Some c) =
        Some (discover_git_loop w (parent c) (Some c))"
      by (rule Suc.IH)
    show ?thesis
      using True
      by (simp add: discover_git_loop.simps [of w c q] IH Let_def
          split: sum.splits list.splits)
  qed
qed

lemma discover_closest_flake_fuel_enough:
  "length (tail c) + (if differs c q then 1 else 0) \<le> n \<Longrightarrow>
   discover_closest_flake_fuel n w c q = Some (discover_closest_flake_loop w c q)"
proof (induction n arbitrary: c q)
  case 0
  then have "\<not> differs c q" by (simp split: if_splits)
  then show ?case
    by (simp add: discover_closest_flake_loop.simps [of w c q])
next
  case (Suc n)
  show ?case
  proof (cases "is_dir w c \<and> differs c q")
    case False
    show ?thesis
      by (simp only: discover_closest_flake_loop.simps [of w c q]
          discover_closest_flake_fuel.simps if_not_P [OF False])
  next
    case True
    with Suc.prems have "length (tail c) \<le> n" by simp
    with walk_measure_parent [of c]
    have "length (tail (parent c)) + (if differs (parent c) (Some c) then 1 else 0) \<le> n"
      by linarith
    then have IH: "discover_closest_flake_fuel n w (parent c) (Some c) =
        Some (discover_closest_flake_loop w (parent c) (Some c))"
      by (rule Suc.IH)
    show ?thesis
      using True
      by (simp add: discover_closest_flake_loop.simps [of w c q] IH Let_def)
  qed
qed

text \<open>
  C9: both walks start at the resolved location \<open>c\<close>. Each of them ends, with the
  result of the function, after at most one run of the loop body for each component of
  \<open>c\<close> and one for the root: the number of parts of an absolute path, its depth. A
  path that is its own parent, such as the root directory, takes at most one run.
\<close>

theorem walks_bounded_by_depth:
  assumes "resolve w location = Inr c"
  shows "discover_git_fuel (Suc (length (tail c))) w c None = Some (discover_git w location) \<and>
         map_option Inr (discover_closest_flake_fuel (Suc (length (tail c))) w c None) =
           Some (discover_closest_flake w location) \<and>
         (root c \<noteq> [] \<longrightarrow> Suc (length (tail c)) = depth c) \<and>
         (parent c = c \<longrightarrow>
            discover_git_fuel 1 w c None = Some (discover_git w location) \<and>
            map_option Inr (discover_closest_flake_fuel 1 w c None) =
              Some (discover_closest_flake w location))"
proof -
  have g: "discover_git w location = discover_git_loop w c None"
    by (simp add: discover_git_def assms)
  have f: "discover_closest_flake w location = Inr (discover_closest_flake_loop w c None)"
    by (simp add: discover_closest_flake_def assms)
  have le: "length (tail c) + (if differs c None then 1 else 0) \<le> Suc (length (tail c))"
    by simp
  have t: "tail c = []" if "parent c = c"
  proof (rule ccontr)
    assume ne: "tail c \<noteq> []"
    then have "length (tail (parent c)) < length (tail c)"
      by (cases "tail c") (simp_all add: parent_def)
    with that show False by simp
  qed
  have le1: "length (tail c) + (if differs c None then 1 else 0) \<le> 1" if "parent c = c"
    using t [OF that] by simp
  show ?thesis
    unfolding g f
    using discover_git_fuel_enough [OF le, of w]
      discover_closest_flake_fuel_enough [OF le, of w]
      discover_git_fuel_enough [OF le1, of w]
      discover_closest_flake_fuel_enough [OF le1, of w]
    by (simp add: depth_def)
qed

theorem walks_bounded_by_depth_witness:
  "discover_git_fuel 3 monorepo (Path ''/'' [''R'', ''sub'']) None =
     Some (discover_git monorepo (Path_of ''/R/sub'')) \<and>
   depth (Path ''/'' [''R'', ''sub'']) = 3 \<and>
   discover_git_fuel 1 monorepo (Path ''/'' []) None =
     Some (discover_git monorepo (Path_of ''/'')) \<and>
   map_option Inr (discover_closest_flake_fuel 1 monorepo (Path ''/'' []) None) =
     Some (discover_closest_flake monorepo (Path_of ''/''))"
proof -
  let ?c = "Path ''/'' [''R'', ''sub'']" and ?r = "Path ''/'' []"
  have 1: "resolve monorepo (Path_of ''/R/sub'') = Inr ?c" by code_simp
  have 2: "resolve monorepo (Path_of ''/'') = Inr ?r" by code_simp
  have 3: "parent ?r = ?r" by code_simp
  have 4: "Suc (length (tail ?c)) = 3" "root ?c \<noteq> []" by simp_all
  note A = walks_bounded_by_depth [OF 1] and B = walks_bounded_by_depth [OF 2]
  have a: "discover_git_fuel 3 monorepo ?c None = Some (discover_git monorepo (Path_of ''/R/sub''))"
    using A [THEN conjunct1] by (simp only: 4)
  have b: "depth ?c = 3"
    using A [THEN conjunct2, THEN conjunct2, THEN conjunct1] 4 by simp
  have c: "discover_git_fuel 1 monorepo ?r None = Some (discover_git monorepo (Path_of ''/'')) \<and>
      map_option Inr (discover_closest_flake_fuel 1 monorepo ?r None) =
        Some (discover_closest_flake monorepo (Path_of ''/''))"
    using B [THEN conjunct2, THEN conjunct2, THEN conjunct2] 3 by blast
  from a b c show ?thesis by blast
qed

subsection \<open>C4 and C5: a \<^verbatim>\<open>.git\<close> that is a file\<close>

lemma git_loop_skips_file:
  assumes "is_dir w d" and "differs d q"
    and "\<not> is_dir w (joinpath d ''.git'')" and "is_file w (joinpath d ''.git'')"
    and "read_text w (path_str (joinpath d ''.git'')) = Inr content"
    and "\<not> startswith (strip content) ''gitdir: ''"
  shows "discover_git_loop w d q = discover_git_loop w (parent d) (Some d)"
  using assms by (simp add: discover_git_loop.simps [of w d q])

lemma git_loop_steps_over:
  assumes "steps_over w d" and "differs d q"
  shows "discover_git_loop w d q = discover_git_loop w (parent d) (Some d)"
    and "differs (parent d) (Some d)"
  using assms
  by (auto simp: discover_git_loop.simps [of w d q] steps_over_def differs_def Let_def
      split: sum.splits)

lemma git_loop_reaches:
  "(\<forall>j<k. steps_over w ((parent ^^ j) c)) \<Longrightarrow> differs c q \<Longrightarrow>
   \<exists>q'. differs ((parent ^^ k) c) q' \<and>
        discover_git_loop w c q = discover_git_loop w ((parent ^^ k) c) q'"
proof (induction k arbitrary: c q)
  case 0
  then show ?case by auto
next
  case (Suc k)
  from Suc.prems(1) have s0: "steps_over w c" by force
  have rest: "\<forall>j<k. steps_over w ((parent ^^ j) (parent c))"
  proof (intro allI impI)
    fix j assume "j < k"
    then have "Suc j < Suc k" by simp
    with Suc.prems(1) have "steps_over w ((parent ^^ Suc j) c)" by blast
    then show "steps_over w ((parent ^^ j) (parent c))" by (simp add: funpow_swap1)
  qed
  from Suc.IH [OF rest git_loop_steps_over(2) [OF s0 Suc.prems(2)]]
  obtain q' where "differs ((parent ^^ k) (parent c)) q'"
    and "discover_git_loop w (parent c) (Some c) = discover_git_loop w ((parent ^^ k) (parent c)) q'"
    by blast
  then show ?case
    using git_loop_steps_over(1) [OF s0 Suc.prems(2)] by (auto simp: funpow_swap1)
qed

lemma git_loop_follows_pointer:
  assumes "is_dir w d" and "differs d q"
    and "\<not> is_dir w (joinpath d ''.git'')" and "is_file w (joinpath d ''.git'')"
    and "read_text w (path_str (joinpath d ''.git'')) = Inr content"
    and "strip content = ''gitdir: /elsewhere/.git''"
  shows "discover_git_loop w d q = Inr (Some (Path ''/'' [''elsewhere'', ''.git'']))"
proof -
  have 1: "startswith ''gitdir: /elsewhere/.git'' ''gitdir: ''" by code_simp
  have 2: "str_split ''gitdir: '' ''gitdir: /elsewhere/.git'' = [[], ''/elsewhere/.git'']"
    by code_simp
  have 3: "Path_of ''/elsewhere/.git'' = Path ''/'' [''elsewhere'', ''.git'']" by code_simp
  show ?thesis
    using assms by (simp add: discover_git_loop.simps [of w d q] 1 2 3)
qed

text \<open>
  C4 says that a \<^verbatim>\<open>.git\<close> file with the text \<^verbatim>\<open>gidref: /elsewhere/.git\<close> sends
  \<^verbatim>\<open>discover_git\<close> to \<^verbatim>\<open>/elsewhere/.git\<close>. The key that the code looks for is
  \<^verbatim>\<open>gitdir: \<close>; a file with another key is stepped over, and here the walk ends at
  the root with nothing found.
\<close>

theorem gidref_pointer_counterexample:
  "discover_git (worktree ''gidref: /elsewhere/.git'') (Path_of ''/wt/src'') = Inr None"
  by code_simp

text \<open>
  C4, as amended: let the walk from the resolved start \<open>c\<close> step over \<open>k\<close> directories
  (none of them gives a repository) and reach a directory \<open>d\<close> whose \<^verbatim>\<open>.git\<close> is a regular
  file with the text \<^verbatim>\<open>gitdir: /elsewhere/.git\<close> (surrounding white space apart). Then
  \<^verbatim>\<open>discover_git\<close> returns the path \<^verbatim>\<open>/elsewhere/.git\<close> as it is written in the file,
  whatever the file system holds at that place.
\<close>

theorem worktree_pointer_followed:
  assumes "resolve w start = Inr c"
    and "\<forall>j<k. steps_over w ((parent ^^ j) c)"
    and "d = (parent ^^ k) c"
    and "is_dir w d"
    and "\<not> is_dir w (joinpath d ''.git'')" and "is_file w (joinpath d ''.git'')"
    and "read_text w (path_str (joinpath d ''.git'')) = Inr content"
    and "strip content = ''gitdir: /elsewhere/.git''"
  shows "discover_git w start = Inr (Some (Path ''/'' [''elsewhere'', ''.git''])) \<and>
         path_str (Path ''/'' [''elsewhere'', ''.git'']) = ''/elsewhere/.git''"
proof -
  have "differs c None" by (simp add: differs_def)
  from git_loop_reaches [OF assms(2) this] obtain q' where q: "differs d q'"
    and eq: "discover_git_loop w c None = discover_git_loop w d q'"
    unfolding assms(3) by blast
  have "discover_git_loop w d q' = Inr (Some (Path ''/'' [''elsewhere'', ''.git'']))"
    using assms(4) q assms(5-8) by (rule git_loop_follows_pointer)
  moreover have "path_str (Path ''/'' [''elsewhere'', ''.git'']) = ''/elsewhere/.git''"
    by code_simp
  ultimately show ?thesis
    by (simp add: discover_git_def assms(1) eq)
qed

theorem worktree_pointer_followed_witness:
  "discover_git (worktree (CHR 0xA0 # ''gitdir: /elsewhere/.git\<newline>'')) (Path_of ''/wt/src'') =
     Inr (Some (Path ''/'' [''elsewhere'', ''.git''])) \<and>
   \<not> is_dir (worktree (CHR 0xA0 # ''gitdir: /elsewhere/.git\<newline>'')) (Path ''/'' [''elsewhere'', ''.git''])"
proof -
  let ?w = "worktree (CHR 0xA0 # ''gitdir: /elsewhere/.git\<newline>'')"
  let ?c = "Path ''/'' [''wt'', ''src'']" and ?d = "Path ''/'' [''wt'']"
  have 1: "resolve ?w (Path_of ''/wt/src'') = Inr ?c" by code_simp
  have s: "steps_over ?w ?c" by code_simp
  have 2: "\<forall>j<1. steps_over ?w ((parent ^^ j) ?c)" using s by simp
  have 3: "?d = (parent ^^ 1) ?c" by code_simp
  have 4: "is_dir ?w ?d" by code_simp
  have 5: "\<not> is_dir ?w (joinpath ?d ''.git'')" by code_simp
  have 6: "is_file ?w (joinpath ?d ''.git'')" by code_simp
  have 7: "read_text ?w (path_str (joinpath ?d ''.git'')) =
      Inr (CHR 0xA0 # ''gitdir: /elsewhere/.git\<newline>'')"
    by code_simp
  have 8: "strip (CHR 0xA0 # ''gitdir: /elsewhere/.git\<newline>'') = ''gitdir: /elsewhere/.git''"
    by code_simp
  have 9: "\<not> is_dir ?w (Path ''/'' [''elsewhere'', ''.git''])" by code_simp
  from worktree_pointer_followed [OF 1 2 3 4 5 6 7 8] 9 show ?thesis by blast
qed

text \<open>
  C5 says that a \<^verbatim>\<open>.git\<close> file whose text has not the expected shape makes
  \<^verbatim>\<open>discover_git\<close> fail. It does not: the function returns \<^verbatim>\<open>None\<close> here, and
  \<^verbatim>\<open>parse\<close> returns the plain path.
\<close>

theorem malformed_pointer_counterexample:
  "discover_git (worktree ''garbage'') (Path_of ''/wt'') = Inr None \<and>
   parse (worktree ''garbage'') ''/wt'' None =
     Inr \<lparr>path = PathObj (Path ''/'' [''wt'']), attr = ''nixosConfigurations.\"localhost\"''\<rparr>"
  by code_simp

text \<open>
  C5, as amended: when the loop is at a directory \<open>d\<close> whose \<^verbatim>\<open>.git\<close> is a regular
  file that can be read and whose text, with the white space of \<^verbatim>\<open>str.strip()\<close> removed
  from both ends, does not start with \<^verbatim>\<open>gitdir: \<close>, no exception is raised for it: the
  entry is ignored and the walk goes on from the parent of \<open>d\<close>.
\<close>

theorem malformed_pointer_skipped:
  assumes "is_dir w d" and "differs d q"
    and "\<not> is_dir w (joinpath d ''.git'')" and "is_file w (joinpath d ''.git'')"
    and "read_text w (path_str (joinpath d ''.git'')) = Inr content"
    and "\<not> startswith (strip content) ''gitdir: ''"
  shows "discover_git_loop w d q = discover_git_loop w (parent d) (Some d) \<and>
         (\<forall>e. discover_git_loop w (parent d) (Some d) \<noteq> Inl e \<longrightarrow> discover_git_loop w d q \<noteq> Inl e)"
  using git_loop_skips_file [OF assms] by simp

theorem malformed_pointer_skipped_witness:
  "discover_git_loop (worktree (''gitdir: '' @ [CHR 0xA0])) (Path ''/'' [''wt'']) None =
     discover_git_loop (worktree (''gitdir: '' @ [CHR 0xA0])) (Path ''/'' [])
       (Some (Path ''/'' [''wt'']))"
proof -
  let ?w = "worktree (''gitdir: '' @ [CHR 0xA0])" and ?d = "Path ''/'' [''wt'']"
  have 1: "is_dir ?w ?d" by code_simp
  have 2: "differs ?d None" by code_simp
  have 3: "\<not> is_dir ?w (joinpath ?d ''.git'')" by code_simp
  have 4: "is_file ?w (joinpath ?d ''.git'')" by code_simp
  have 5: "read_text ?w (path_str (joinpath ?d ''.git'')) = Inr (''gitdir: '' @ [CHR 0xA0])"
    by code_simp
  have 6: "\<not> startswith (strip (''gitdir: '' @ [CHR 0xA0])) ''gitdir: ''" by code_simp
  have 7: "parent ?d = Path ''/'' []" by code_simp
  from malformed_pointer_skipped [OF 1 2 3 4 5 6] 7 show ?thesis by simp
qed

end
